theory Spec2Isabelle
  imports Main "HOL-Library.Sublist"
begin

section \<open>Strings of the JavaScript runtime\<close>

text \<open>
  The server in \<^verbatim>\<open>packages/webapi/server.js\<close> works on JavaScript strings. A string is
  modelled as a \<^typ>\<open>string\<close>, one \<^typ>\<open>char\<close> per code unit, the characters being read as the
  code units U+0000 to U+00FF. \<^verbatim>\<open>length\<close> is the number of code units.
\<close>

text \<open>The code units below U+0100 that the regular expression class \<^verbatim>\<open>\s\<close> accepts.\<close>

definition isWhiteSpace :: "char \<Rightarrow> bool" where
  "isWhiteSpace c =
     (c \<in> set [CHR 0x09, CHR 0x0A, CHR 0x0B, CHR 0x0C, CHR 0x0D, CHR 0x20, CHR 0xA0])"

text \<open>
  \<^verbatim>\<open>String.prototype.toLowerCase\<close> below U+0100: the letters A to Z and the letters
  U+00C0 to U+00DE (the multiplication sign U+00D7 apart) move up by 32.
\<close>

definition toLowerChar :: "char \<Rightarrow> char" where
  "toLowerChar c =
     (let n = (of_char c :: nat)
      in if (65 \<le> n \<and> n \<le> 90) \<or> (192 \<le> n \<and> n \<le> 222 \<and> n \<noteq> 215)
         then char_of (n + 32) else c)"

definition toLowerCase :: "string \<Rightarrow> string" where
  "toLowerCase s = map toLowerChar s"

text \<open>
  \<^verbatim>\<open>s.split(/\s+/)\<close>: every maximal run of white space is one separator. White space at
  the start or at the end of the string leaves an empty string at that end of the result,
  and the empty string splits into one empty string.
\<close>

function splitWs :: "string \<Rightarrow> string list" where
  "splitWs [] = [[]]"
| "splitWs (c # cs) =
     (if isWhiteSpace c then [] # splitWs (dropWhile isWhiteSpace cs)
      else (case splitWs cs of [] \<Rightarrow> [[c]] | w # ws \<Rightarrow> (c # w) # ws))"
  by pat_completeness auto
termination
  by (relation "measure length") (auto simp: le_imp_less_Suc length_dropWhile_le)

text \<open>\<^verbatim>\<open>xs.join(sep)\<close>.\<close>

fun join :: "string \<Rightarrow> string list \<Rightarrow> string" where
  "join sep [] = []"
| "join sep [x] = x"
| "join sep (x # y # ys) = x @ sep @ join sep (y # ys)"

section \<open>Loading and chunking the handbook\<close>

text \<open>
  The loop of \<^verbatim>\<open>loadPDF\<close> over the words, with its two variables: \<^verbatim>\<open>currentChunk\<close> and
  the array \<^verbatim>\<open>pdfChunks\<close> it pushes to. The size test counts the separating blank even
  when \<^verbatim>\<open>currentChunk\<close> is empty, and the else branch pushes \<^verbatim>\<open>currentChunk\<close> whatever
  it holds.
\<close>

fun chunkLoop :: "nat \<Rightarrow> string list \<Rightarrow> string \<Rightarrow> string list \<Rightarrow> string \<times> string list" where
  "chunkLoop maxSize [] currentChunk pdfChunks = (currentChunk, pdfChunks)"
| "chunkLoop maxSize (word # words) currentChunk pdfChunks =
     (if length (currentChunk @ '' '' @ word) \<le> maxSize
      then chunkLoop maxSize words
             (currentChunk @ (if currentChunk \<noteq> [] then '' '' else []) @ word) pdfChunks
      else chunkLoop maxSize words word (pdfChunks @ [currentChunk]))"

text \<open>
  What the loop and the final push leave in \<^verbatim>\<open>pdfChunks\<close> for a text and a bound: the
  words are \<^verbatim>\<open>text.split(/\s+/)\<close>, and the last \<^verbatim>\<open>currentChunk\<close> is pushed when it is
  not empty.
\<close>

definition chunkInto :: "nat \<Rightarrow> string \<Rightarrow> string list \<Rightarrow> string list" where
  "chunkInto maxSize text pdfChunks =
     (case chunkLoop maxSize (splitWs text) [] pdfChunks of
        (currentChunk, pdfChunks') \<Rightarrow>
          if currentChunk \<noteq> [] then pdfChunks' @ [currentChunk] else pdfChunks')"

text \<open>The chunks of a text under a bound: the run above from an empty array.\<close>

definition chunk :: "string \<Rightarrow> nat \<Rightarrow> string list" where
  "chunk text maxSize = chunkInto maxSize text []"

definition CHUNK_SIZE :: nat where
  "CHUNK_SIZE = 800"

text \<open>
  The module state that the loader and the chat handler share: \<^verbatim>\<open>pdfText\<close> (\<^verbatim>\<open>null\<close> is
  \<open>None\<close>), \<^verbatim>\<open>pdfChunks\<close>, and \<^verbatim>\<open>sessionMemories\<close>, which maps a session key to the
  messages its memory holds.
\<close>

datatype role = System | User | Assistant

type_synonym message = "role \<times> string"

record state =
  pdfText :: "string option"
  pdfChunks :: "string list"
  sessionMemories :: "string \<rightharpoonup> message list"

text \<open>
  What is found at \<^verbatim>\<open>pdfPath\<close>: no file, a file whose text \<^verbatim>\<open>pdfParse\<close> extracts, or a
  file that \<^verbatim>\<open>readFileSync\<close> or \<^verbatim>\<open>pdfParse\<close> throws on.
\<close>

datatype corpus = Missing | Extracted string | Unreadable

text \<open>
  The exceptions a call can end with: the \<^verbatim>\<open>SyntaxError\<close> of \<^verbatim>\<open>new RegExp\<close>, the
  \<^verbatim>\<open>TypeError\<close> of a call on a value that has no such method, and what reading or parsing
  the corpus file throws.
\<close>

datatype error = SyntaxError | TypeError | CorpusError

text \<open>
  \<^verbatim>\<open>loadPDF\<close>: the cached text is returned when it is truthy (neither \<^verbatim>\<open>null\<close> nor empty);
  a missing file gives the string \<^verbatim>\<open>PDF not found.\<close> and leaves the state alone; otherwise
  the text is stored and its chunks are pushed to \<^verbatim>\<open>pdfChunks\<close>.
\<close>

definition loadPDF :: "corpus \<Rightarrow> state \<Rightarrow> error + (string \<times> state)" where
  "loadPDF file s =
     (case pdfText s of
        Some (c # cs) \<Rightarrow> Inr (c # cs, s)
      | _ \<Rightarrow>
        (case file of
           Missing \<Rightarrow> Inr (''PDF not found.'', s)
         | Unreadable \<Rightarrow> Inl CorpusError
         | Extracted text \<Rightarrow>
             Inr (text, s\<lparr>pdfText := Some text,
                         pdfChunks := chunkInto CHUNK_SIZE text (pdfChunks s)\<rparr>)))"

section \<open>Regular expressions built from query terms\<close>

text \<open>
  \<^verbatim>\<open>new RegExp(term, 'gi')\<close> reads the term as a pattern. The part of the pattern language
  written out here: alternatives separated by \<^verbatim>\<open>|\<close>, each a sequence of the assertions \<^verbatim>\<open>^\<close>
  and \<^verbatim>\<open>$\<close> and of single characters, a character optionally followed by \<^verbatim>\<open>*\<close> or \<^verbatim>\<open>+\<close>.
  A quantifier with nothing to repeat is a \<^verbatim>\<open>SyntaxError\<close>. A pattern with a character that
  opens the rest of the language (escapes, classes, groups, braces, the dot, the question
  mark) is handed to the runtime's own regular expressions, which are a parameter of the
  model: for a pattern they either throw the \<^verbatim>\<open>SyntaxError\<close> (\<open>None\<close>) or give the number of
  matches that \<^verbatim>\<open>str.match\<close> finds in each string.
\<close>

type_synonym runtime = "string \<Rightarrow> (string \<Rightarrow> nat) option"

datatype quantifier = Once | Star | Plus

datatype rterm = Atom char quantifier | LineStart | LineEnd

type_synonym regex = "rterm list list"

definition beyondChars :: "char list" where
  "beyondChars = [CHR 0x5C, CHR ''.'', CHR ''?'', CHR ''('', CHR '')'', CHR ''['', CHR '']'',
                  CHR ''{'', CHR ''}'']"

text \<open>
  The parser reads the pattern from the left; its second argument is the alternative being
  read, last term first. It ends with the pattern read, with \<open>Invalid\<close> for a quantifier
  that has nothing to repeat, or with \<open>Beyond\<close> at the first character that opens the rest
  of the language.
\<close>

datatype reading = Fragment regex | Invalid | Beyond

fun parsePattern :: "string \<Rightarrow> rterm list \<Rightarrow> reading" where
  "parsePattern [] alt = Fragment [rev alt]"
| "parsePattern (c # cs) alt =
     (if c = CHR ''|'' then
        (case parsePattern cs [] of
           Fragment alts \<Rightarrow> Fragment (rev alt # alts)
         | Invalid \<Rightarrow> Invalid
         | Beyond \<Rightarrow> Beyond)
      else if c = CHR ''^'' then parsePattern cs (LineStart # alt)
      else if c = CHR ''$'' then parsePattern cs (LineEnd # alt)
      else if c = CHR ''*'' \<or> c = CHR ''+'' then
        (case alt of
           Atom a Once # rest \<Rightarrow>
             parsePattern cs (Atom a (if c = CHR ''*'' then Star else Plus) # rest)
         | _ \<Rightarrow> Invalid)
      else if c \<in> set beyondChars then Beyond
      else parsePattern cs (Atom c Once # alt))"

text \<open>
  A regular expression object: one of the part written out here, or one of the runtime,
  known by the number of matches it has in each string.
\<close>

datatype regexp = Modelled regex | Native "string \<Rightarrow> nat"

text \<open>
  \<^verbatim>\<open>new RegExp(pattern, 'gi')\<close>: the regular expression object, or the \<^verbatim>\<open>SyntaxError\<close>. A
  pattern that the parser leaves at \<open>Beyond\<close> is the runtime's to compile.
\<close>

definition newRegExp :: "runtime \<Rightarrow> string \<Rightarrow> error + regexp" where
  "newRegExp rt pattern =
     (case parsePattern pattern [] of
        Fragment re \<Rightarrow> Inr (Modelled re)
      | Invalid \<Rightarrow> Inl SyntaxError
      | Beyond \<Rightarrow>
          (case rt pattern of None \<Rightarrow> Inl SyntaxError | Some count \<Rightarrow> Inr (Native count)))"

text \<open>
  Under the flag \<^verbatim>\<open>i\<close> two characters match when their canonical forms agree. Below
  U+0100 the canonical form of a letter a to z, and of a letter U+00E0 to U+00FE (the
  division sign U+00F7 apart), is the letter 32 below; every other character below U+0100
  is alone in its class and stands for itself.
\<close>

definition canonicalize :: "char \<Rightarrow> char" where
  "canonicalize c =
     (let n = (of_char c :: nat)
      in if (97 \<le> n \<and> n \<le> 122) \<or> (224 \<le> n \<and> n \<le> 254 \<and> n \<noteq> 247)
         then char_of (n - 32) else c)"

text \<open>
  The backtracking matcher for one alternative at index \<open>pos\<close> of the input, \<open>s\<close> being
  the input from \<open>pos\<close> on. It gives the end index of the first match in the order the
  language fixes: a quantifier first takes one more character and only then tries the rest
  of the pattern.
\<close>

fun matchTerms :: "rterm list \<Rightarrow> nat \<Rightarrow> string \<Rightarrow> nat option" where
  "matchTerms [] pos s = Some pos"
| "matchTerms (LineStart # ts) pos s = (if pos = 0 then matchTerms ts pos s else None)"
| "matchTerms (LineEnd # ts) pos s = (if s = [] then matchTerms ts pos s else None)"
| "matchTerms (Atom a Once # ts) pos [] = None"
| "matchTerms (Atom a Once # ts) pos (c # cs) =
     (if canonicalize c = canonicalize a then matchTerms ts (Suc pos) cs else None)"
| "matchTerms (Atom a Plus # ts) pos [] = None"
| "matchTerms (Atom a Plus # ts) pos (c # cs) =
     (if canonicalize c = canonicalize a then matchTerms (Atom a Star # ts) (Suc pos) cs
      else None)"
| "matchTerms (Atom a Star # ts) pos [] = matchTerms ts pos []"
| "matchTerms (Atom a Star # ts) pos (c # cs) =
     (if canonicalize c = canonicalize a then
        (case matchTerms (Atom a Star # ts) (Suc pos) cs of
           Some e \<Rightarrow> Some e
         | None \<Rightarrow> matchTerms ts pos (c # cs))
      else matchTerms ts pos (c # cs))"

text \<open>The alternatives are tried from the left; the first that matches wins.\<close>

fun matchAlts :: "regex \<Rightarrow> nat \<Rightarrow> string \<Rightarrow> nat option" where
  "matchAlts [] pos s = None"
| "matchAlts (alt # alts) pos s =
     (case matchTerms alt pos s of Some e \<Rightarrow> Some e | None \<Rightarrow> matchAlts alts pos s)"

text \<open>
  \<^verbatim>\<open>str.match(regex)\<close> with the flag \<^verbatim>\<open>g\<close>: the number of matches found by searching
  again from the end of each match, one index further after an empty match. The result
  \<^verbatim>\<open>null\<close> of the method is the count 0.
\<close>

function matchCountFrom :: "regex \<Rightarrow> nat \<Rightarrow> string \<Rightarrow> nat" where
  "matchCountFrom re pos [] = (case matchAlts re pos [] of Some e \<Rightarrow> 1 | None \<Rightarrow> 0)"
| "matchCountFrom re pos (c # cs) =
     (case matchAlts re pos (c # cs) of
        None \<Rightarrow> matchCountFrom re (Suc pos) cs
      | Some e \<Rightarrow>
          if e \<le> pos then 1 + matchCountFrom re (Suc pos) cs
          else 1 + matchCountFrom re e (drop (e - Suc pos) cs))"
  by pat_completeness auto
termination
  by (relation "measure (\<lambda>(re, pos, s). length s)") (auto simp: le_imp_less_Suc)

definition matchCount :: "regex \<Rightarrow> string \<Rightarrow> nat" where
  "matchCount re s = matchCountFrom re 0 s"

text \<open>The length of \<^verbatim>\<open>str.match(regex)\<close> for a regular expression object, 0 for \<^verbatim>\<open>null\<close>.\<close>

fun matchesLength :: "regexp \<Rightarrow> string \<Rightarrow> nat" where
  "matchesLength (Modelled re) s = matchCount re s"
| "matchesLength (Native count) s = count s"

section \<open>Retrieval\<close>

definition punctuation :: "char list" where
  "punctuation = [CHR ''.'', CHR '','', CHR ''?'', CHR ''!'', CHR '';'', CHR '':'', CHR ''('',
                  CHR '')'', CHR 0x22, CHR 0x27]"

text \<open>\<^verbatim>\<open>term.replace(/[.,?!;:()"']/g, "")\<close>.\<close>

definition stripPunctuation :: "string \<Rightarrow> string" where
  "stripPunctuation t = filter (\<lambda>c. c \<notin> set punctuation) t"

text \<open>
  \<^verbatim>\<open>queryTerms\<close> of \<^verbatim>\<open>retrieveRelevantContent\<close>: the length filter runs on the tokens as
  split, before the punctuation is taken out of those that pass.
\<close>

definition queryTerms :: "string \<Rightarrow> string list" where
  "queryTerms query =
     map stripPunctuation (filter (\<lambda>t. 3 < length t) (splitWs (toLowerCase query)))"

text \<open>The loop over the terms that adds up \<^verbatim>\<open>score\<close> for one lower-cased chunk.\<close>

fun scoreLoop :: "runtime \<Rightarrow> string list \<Rightarrow> string \<Rightarrow> nat \<Rightarrow> error + nat" where
  "scoreLoop rt [] chunkLower score = Inr score"
| "scoreLoop rt (t # ts) chunkLower score =
     (case newRegExp rt t of
        Inl e \<Rightarrow> Inl e
      | Inr regex \<Rightarrow> scoreLoop rt ts chunkLower (score + matchesLength regex chunkLower))"

definition scoreChunk :: "runtime \<Rightarrow> string list \<Rightarrow> string \<Rightarrow> error + nat" where
  "scoreChunk rt terms c = scoreLoop rt terms (toLowerCase c) 0"

text \<open>
  \<^verbatim>\<open>pdfChunks.map(chunk => ...)\<close>, which stops at the first chunk whose scoring throws. The
  first component counts the chunks the callback ran on.
\<close>

fun scoredChunks :: "runtime \<Rightarrow> string list \<Rightarrow> string list \<Rightarrow> nat \<times> (error + (string \<times> nat) list)" where
  "scoredChunks rt terms [] = (0, Inr [])"
| "scoredChunks rt terms (c # cs) =
     (case scoreChunk rt terms c of
        Inl e \<Rightarrow> (1, Inl e)
      | Inr score \<Rightarrow>
          (case scoredChunks rt terms cs of
             (n, Inl e) \<Rightarrow> (Suc n, Inl e)
           | (n, Inr items) \<Rightarrow> (Suc n, Inr ((c, score) # items))))"

text \<open>
  \<^verbatim>\<open>.filter(item => item.score > 0).sort((a, b) => b.score - a.score).slice(0, 3)
  .map(item => item.chunk)\<close>. \<^verbatim>\<open>Array.prototype.sort\<close> is stable, and so is \<^const>\<open>sort_key\<close>.
\<close>

definition topChunks :: "(string \<times> nat) list \<Rightarrow> string list" where
  "topChunks items =
     map fst (take 3 (sort_key (\<lambda>item. - int (snd item)) (filter (\<lambda>item. 0 < snd item) items)))"

text \<open>
  \<^verbatim>\<open>retrieveRelevantContent\<close>, on the chunk array it reads, in two parts: the body of the
  function once \<^verbatim>\<open>queryTerms\<close> is computed, and the function itself. \<open>scored\<close> is the
  number of chunks that were scored, \<open>outcome\<close> the returned array or the exception.
\<close>

record retrieval =
  scored :: nat
  outcome :: "error + string list"

definition retrieve :: "runtime \<Rightarrow> string list \<Rightarrow> string list \<Rightarrow> retrieval" where
  "retrieve rt terms chunks =
     (if length terms = 0 then \<lparr>scored = 0, outcome = Inr []\<rparr>
      else (case scoredChunks rt terms chunks of
              (n, Inl e) \<Rightarrow> \<lparr>scored = n, outcome = Inl e\<rparr>
            | (n, Inr items) \<Rightarrow> \<lparr>scored = n, outcome = Inr (topChunks items)\<rparr>))"

definition retrieveRelevantContent :: "runtime \<Rightarrow> string \<Rightarrow> string list \<Rightarrow> retrieval" where
  "retrieveRelevantContent rt query chunks = retrieve rt (queryTerms query) chunks"

section \<open>Session memory\<close>

text \<open>
  \<^verbatim>\<open>sessionMemories\<close> is a plain object, so a lookup also finds what every object inherits.
  These keys are never assigned (the inherited value is truthy), and what they give is not
  a memory.
\<close>

definition inheritedKeys :: "string list" where
  "inheritedKeys = [''constructor'', ''__proto__'', ''hasOwnProperty'', ''isPrototypeOf'',
     ''propertyIsEnumerable'', ''toLocaleString'', ''toString'', ''valueOf'',
     ''__defineGetter__'', ''__defineSetter__'', ''__lookupGetter__'', ''__lookupSetter__'']"

text \<open>
  \<^verbatim>\<open>getSessionMemory\<close>: the messages of the session's memory, after creating an empty
  memory for a key that has none; \<open>None\<close> for an inherited key.
\<close>

definition getSessionMemory ::
  "string \<Rightarrow> (string \<rightharpoonup> message list) \<Rightarrow> message list option \<times> (string \<rightharpoonup> message list)" where
  "getSessionMemory sessionId memories =
     (case memories sessionId of
        Some history \<Rightarrow> (Some history, memories)
      | None \<Rightarrow>
          if sessionId \<in> set inheritedKeys then (None, memories)
          else (Some [], memories(sessionId \<mapsto> [])))"

text \<open>
  \<^verbatim>\<open>memory.saveContext({ input }, { output })\<close>: the user's message and the reply are
  appended to the session's messages.
\<close>

definition saveContext ::
  "string \<Rightarrow> string \<Rightarrow> string \<Rightarrow> (string \<rightharpoonup> message list) \<Rightarrow> (string \<rightharpoonup> message list)" where
  "saveContext sessionId input output memories =
     memories(sessionId \<mapsto>
       (case memories sessionId of None \<Rightarrow> [] | Some history \<Rightarrow> history)
         @ [(User, input), (Assistant, output)])"

text \<open>
  The history of a session as \<^verbatim>\<open>loadMemoryVariables\<close> reports it: the messages of its
  memory, none for a session without a memory.
\<close>

definition getHistory :: "state \<Rightarrow> string \<Rightarrow> message list" where
  "getHistory s sessionId =
     (case sessionMemories s sessionId of None \<Rightarrow> [] | Some history \<Rightarrow> history)"

section \<open>The chat handler\<close>

text \<open>
  A field of the request body that may hold any JSON value or be left out. A number is
  falsy when it is zero, a string when it is empty; arrays and objects are truthy.
\<close>

datatype jsvalue = Undefined | Null | Boolean bool | Number int | Text string | Object

fun truthy :: "jsvalue \<Rightarrow> bool" where
  "truthy Undefined = False"
| "truthy Null = False"
| "truthy (Boolean b) = b"
| "truthy (Number n) = (n \<noteq> 0)"
| "truthy (Text t) = (t \<noteq> [])"
| "truthy Object = True"

record request =
  message :: string
  useRAG :: jsvalue
  sessionId :: "string option"

definition groundedPrompt :: "string list \<Rightarrow> string" where
  "groundedPrompt sources =
     ''You are a helpful assistant for Contoso Electronics. You must ONLY use the information provided below to answer.''
     @ [CHR 0x0A, CHR 0x0A] @ ''--- EMPLOYEE HANDBOOK EXCERPTS ---'' @ [CHR 0x0A]
     @ join [CHR 0x0A, CHR 0x0A] sources @ [CHR 0x0A] @ ''--- END OF EXCERPTS ---''"

definition noInformationPrompt :: string where
  "noInformationPrompt =
     ''You are a helpful assistant for Contoso Electronics. The excerpts do not contain relevant information for this question. Reply politely: ''
     @ [CHR 0x22] @ ''I'' @ [CHR 0x27] @ ''m sorry, I don'' @ [CHR 0x27]
     @ ''t know. The employee handbook does not contain information about that.'' @ [CHR 0x22]"

definition genericPrompt :: string where
  "genericPrompt =
     ''You are a helpful and knowledgeable assistant. Answer the user'' @ [CHR 0x27]
     @ ''s questions concisely and informatively.''"

definition systemMessage :: "bool \<Rightarrow> string list \<Rightarrow> message" where
  "systemMessage rag sources =
     (if rag then (System, if 0 < length sources then groundedPrompt sources
                           else noInformationPrompt)
      else (System, genericPrompt))"

text \<open>
  The handler up to the model call, which the specification calls \<^verbatim>\<open>buildMessages\<close>: the
  flag's default, the session key, the session's memory, retrieval when the flag is truthy,
  and the message list. The state is returned as the handler leaves it, also when a step
  throws.
\<close>

definition ragFlag :: "request \<Rightarrow> bool" where
  "ragFlag req = truthy (if useRAG req = Undefined then Boolean True else useRAG req)"

definition sessionKey :: "request \<Rightarrow> string" where
  "sessionKey req =
     (case sessionId req of None \<Rightarrow> ''default'' | Some [] \<Rightarrow> ''default'' | Some k \<Rightarrow> k)"

definition buildMessages ::
  "runtime \<Rightarrow> corpus \<Rightarrow> state \<Rightarrow> request \<Rightarrow> (error + (message list \<times> string list)) \<times> state" where
  "buildMessages rt file s req =
     (case getSessionMemory (sessionKey req) (sessionMemories s) of
        (None, memories) \<Rightarrow> (Inl TypeError, s\<lparr>sessionMemories := memories\<rparr>)
      | (Some chat_history, memories) \<Rightarrow>
          (let s1 = s\<lparr>sessionMemories := memories\<rparr>
           in if ragFlag req then
                (case loadPDF file s1 of
                   Inl e \<Rightarrow> (Inl e, s1)
                 | Inr (_, s2) \<Rightarrow>
                     (case outcome (retrieveRelevantContent rt (message req) (pdfChunks s2)) of
                        Inl e \<Rightarrow> (Inl e, s2)
                      | Inr sources \<Rightarrow>
                          (Inr (systemMessage True sources # chat_history
                                  @ [(User, message req)], sources), s2)))
              else (Inr (systemMessage False [] # chat_history @ [(User, message req)], []),
                    s1)))"

text \<open>
  What the client gets: the reply with the sources, the status 500 of the \<^verbatim>\<open>catch\<close>
  block, or no reply of the handler when it throws outside its \<^verbatim>\<open>try\<close> block (the promise
  of the handler is rejected with the exception, and what the client then sees is the
  framework's business).
\<close>

datatype response = Reply string "string list" | ModelCallFailed | Unanswered error

text \<open>
  \<^verbatim>\<open>app.post("/chat", ...)\<close>. \<open>invoke\<close> is \<^verbatim>\<open>chatModel.invoke\<close>: the content of the model's
  response, or \<open>None\<close> when the call fails.
\<close>

definition chat ::
  "runtime \<Rightarrow> (message list \<Rightarrow> string option) \<Rightarrow> corpus \<Rightarrow> state \<Rightarrow> request \<Rightarrow> response \<times> state" where
  "chat rt invoke file s req =
     (case buildMessages rt file s req of
        (Inl e, s') \<Rightarrow> (Unanswered e, s')
      | (Inr (messages, sources), s') \<Rightarrow>
          (case invoke messages of
             None \<Rightarrow> (ModelCallFailed, s')
           | Some content \<Rightarrow>
               (Reply content sources,
                s'\<lparr>sessionMemories :=
                     saveContext (sessionKey req) (message req) content (sessionMemories s')\<rparr>)))"

definition initialState :: state where
  "initialState = \<lparr>pdfText = None, pdfChunks = [], sessionMemories = Map.empty\<rparr>"

section \<open>Notions of the specification\<close>

text \<open>
  The words of a text: the strings between its runs of white space, the empty strings that
  \<^verbatim>\<open>split\<close> leaves at the ends apart.
\<close>

definition wordsOf :: "string \<Rightarrow> string list" where
  "wordsOf s = filter (\<lambda>w. w \<noteq> []) (splitWs s)"

text \<open>
  The score as the specification words it: for each term, the number of occurrences of the
  term in the chunk text as a literal substring, case being ignored, summed over the terms.
  The occurrences are counted from the left and without overlap, as a repeated search for
  the term counts them.
\<close>

function literalOccurrences :: "string \<Rightarrow> string \<Rightarrow> nat" where
  "literalOccurrences t [] = (if t = [] then 1 else 0)"
| "literalOccurrences t (c # cs) =
     (if prefix (toLowerCase t) (toLowerCase (c # cs))
      then 1 + literalOccurrences t (drop (length t - 1) cs)
      else literalOccurrences t cs)"
  by pat_completeness auto
termination
  by (relation "measure (\<lambda>(t, s). length s)") (auto simp: le_imp_less_Suc)

definition literalScore :: "string list \<Rightarrow> string \<Rightarrow> nat" where
  "literalScore terms c = sum_list (map (\<lambda>t. literalOccurrences t c) terms)"

text \<open>
  The characters that the pattern language gives a meaning to. A term without them is a
  plain term.
\<close>

definition patternChars :: "char list" where
  "patternChars = [CHR ''|'', CHR ''^'', CHR ''$'', CHR ''*'', CHR ''+''] @ beyondChars"

definition plainTerm :: "string \<Rightarrow> bool" where
  "plainTerm t = list_all (\<lambda>c. c \<notin> set patternChars) t"

text \<open>
  Normalisation as the specification words it: the tokens are lower-cased and stripped of
  punctuation first, and the tokens of length 3 or less are discarded after that.
\<close>

definition normalizedTokens :: "string \<Rightarrow> string list" where
  "normalizedTokens query = map stripPunctuation (splitWs (toLowerCase query))"

definition normalize :: "string \<Rightarrow> string list" where
  "normalize query = filter (\<lambda>t. 3 < length t) (normalizedTokens query)"

section \<open>Properties of chunking\<close>

text \<open>
  The loop only appends to the array: the loader's chunks are the chunks it already has,
  followed by the chunks of the text under \<^const>\<open>CHUNK_SIZE\<close>.
\<close>

lemma chunkLoop_prepend:
  "chunkLoop m ws cur (pre @ acc) = (case chunkLoop m ws cur acc of (c, a) \<Rightarrow> (c, pre @ a))"
  by (induction ws arbitrary: cur acc) simp_all

lemma chunkInto_append: "chunkInto m t pre = pre @ chunk t m"
  using chunkLoop_prepend [of m "splitWs t" "[]" pre "[]"]
  by (simp add: chunk_def chunkInto_def split: prod.splits)

lemma loadPDF_first_load:
  "pdfText s = None \<Longrightarrow>
   loadPDF (Extracted t) s
     = Inr (t, s\<lparr>pdfText := Some t, pdfChunks := pdfChunks s @ chunk t CHUNK_SIZE\<rparr>)"
  by (simp add: loadPDF_def chunkInto_append)

lemma chunkLoop_bound:
  assumes "chunkLoop m ws cur acc = (cur', acc')"
    and "\<forall>c \<in> set (cur # acc). length c \<le> m \<or> (c \<in> W \<and> m < length c)"
    and "set ws \<subseteq> W"
  shows "\<forall>c \<in> set (cur' # acc'). length c \<le> m \<or> (c \<in> W \<and> m < length c)"
  using assms
proof (induction ws arbitrary: cur acc)
  case Nil
  then show ?case by simp
next
  case (Cons w ws)
  show ?case
  proof (cases "length (cur @ '' '' @ w) \<le> m")
    case True
    let ?cur = "cur @ (if cur \<noteq> [] then '' '' else []) @ w"
    from True have len: "length ?cur \<le> m" by simp
    from Cons.prems(1) True have run: "chunkLoop m ws ?cur acc = (cur', acc')" by simp
    from Cons.prems(2) len
    have inv: "\<forall>c \<in> set (?cur # acc). length c \<le> m \<or> (c \<in> W \<and> m < length c)"
      by simp
    from Cons.prems(3) have "set ws \<subseteq> W" by simp
    from Cons.IH [OF run inv this] show ?thesis .
  next
    case False
    from Cons.prems(1) False have run: "chunkLoop m ws w (acc @ [cur]) = (cur', acc')"
      by simp
    from Cons.prems(3) have wW: "w \<in> W" and rest: "set ws \<subseteq> W" by simp_all
    have "length w \<le> m \<or> (w \<in> W \<and> m < length w)" using wW by auto
    with Cons.prems(2)
    have inv: "\<forall>c \<in> set (w # (acc @ [cur])). length c \<le> m \<or> (c \<in> W \<and> m < length c)"
      by auto
    from Cons.IH [OF run inv rest] show ?thesis .
  qed
qed

lemma chunk_cases:
  obtains cur acc where "chunkLoop m (splitWs t) [] [] = (cur, acc)"
    and "chunk t m = (if cur \<noteq> [] then acc @ [cur] else acc)"
  by (cases "chunkLoop m (splitWs t) [] []") (simp add: chunk_def chunkInto_def)

text \<open>
  A word longer than the bound is never joined to another word: it only leaves
  \<^verbatim>\<open>currentChunk\<close> by being pushed.
\<close>

lemma chunkLoop_keeps:
  assumes "chunkLoop m ws cur acc = (cur', acc')"
    and "x \<in> set (cur # acc)" and "m < length x"
  shows "x \<in> set (cur' # acc')"
  using assms
proof (induction ws arbitrary: cur acc)
  case Nil
  then show ?case by simp
next
  case (Cons w ws)
  show ?case
  proof (cases "length (cur @ '' '' @ w) \<le> m")
    case True
    with Cons.prems(1)
    have run: "chunkLoop m ws (cur @ (if cur \<noteq> [] then '' '' else []) @ w) acc = (cur', acc')"
      by simp
    from True Cons.prems(3) have "x \<noteq> cur" by auto
    with Cons.prems(2) have "x \<in> set ((cur @ (if cur \<noteq> [] then '' '' else []) @ w) # acc)"
      by simp
    from Cons.IH [OF run this Cons.prems(3)] show ?thesis .
  next
    case False
    with Cons.prems(1) have run: "chunkLoop m ws w (acc @ [cur]) = (cur', acc')" by simp
    from Cons.prems(2) have "x \<in> set (w # (acc @ [cur]))" by auto
    from Cons.IH [OF run this Cons.prems(3)] show ?thesis .
  qed
qed

lemma chunkLoop_long_word:
  assumes "chunkLoop m ws cur acc = (cur', acc')"
    and "w \<in> set ws" and "m < length w"
  shows "w \<in> set (cur' # acc')"
  using assms
proof (induction ws arbitrary: cur acc)
  case Nil
  then show ?case by simp
next
  case (Cons v ws)
  show ?case
  proof (cases "w = v")
    case True
    with Cons.prems(3) have "\<not> length (cur @ '' '' @ v) \<le> m" by simp
    with Cons.prems(1) have run: "chunkLoop m ws v (acc @ [cur]) = (cur', acc')" by simp
    from chunkLoop_keeps [OF run _ Cons.prems(3)] True show ?thesis by simp
  next
    case False
    with Cons.prems(2) have mem: "w \<in> set ws" by simp
    show ?thesis
    proof (cases "length (cur @ '' '' @ v) \<le> m")
      case True
      with Cons.prems(1)
      have "chunkLoop m ws (cur @ (if cur \<noteq> [] then '' '' else []) @ v) acc = (cur', acc')"
        by simp
      from Cons.IH [OF this mem Cons.prems(3)] show ?thesis .
    next
      case False
      with Cons.prems(1) have "chunkLoop m ws v (acc @ [cur]) = (cur', acc')" by simp
      from Cons.IH [OF this mem Cons.prems(3)] show ?thesis .
    qed
  qed
qed

text \<open>
  Claim C4. Every chunk that chunking a text under a bound \<open>maxSize\<close> produces is at most
  \<open>maxSize\<close> long, unless it is exactly one word of the text that is itself longer than
  \<open>maxSize\<close>; and every word of the text that is longer than \<open>maxSize\<close> is a chunk of its
  own.
\<close>

theorem chunk_length_bound:
  assumes "0 < maxSize"
  shows "(\<forall>c \<in> set (chunk text maxSize).
            length c \<le> maxSize \<or> (c \<in> set (splitWs text) \<and> maxSize < length c))
       \<and> (\<forall>w \<in> set (splitWs text). maxSize < length w \<longrightarrow> w \<in> set (chunk text maxSize))"
proof (rule chunk_cases [of maxSize "text"])
  fix cur acc
  assume run: "chunkLoop maxSize (splitWs text) [] [] = (cur, acc)"
    and res: "chunk text maxSize = (if cur \<noteq> [] then acc @ [cur] else acc)"
  have "\<forall>c \<in> set ([] # []). length c \<le> maxSize
          \<or> (c \<in> set (splitWs text) \<and> maxSize < length c)"
    by simp
  from chunkLoop_bound [OF run this subset_refl]
  have all: "\<forall>c \<in> set (cur # acc). length c \<le> maxSize
               \<or> (c \<in> set (splitWs text) \<and> maxSize < length c)" .
  have sub: "set (chunk text maxSize) \<subseteq> set (cur # acc)"
    using res by auto
  have first: "\<forall>c \<in> set (chunk text maxSize).
                 length c \<le> maxSize \<or> (c \<in> set (splitWs text) \<and> maxSize < length c)"
    using all sub by blast
  have second: "\<forall>w \<in> set (splitWs text). maxSize < length w \<longrightarrow> w \<in> set (chunk text maxSize)"
  proof (intro ballI impI)
    fix w
    assume w: "w \<in> set (splitWs text)" and long: "maxSize < length w"
    from chunkLoop_long_word [OF run w long] have "w \<in> set (cur # acc)" .
    moreover from long have "w \<noteq> []" by auto
    ultimately show "w \<in> set (chunk text maxSize)" using res by auto
  qed
  from first second show ?thesis by blast
qed

theorem chunk_length_bound_witness:
  "0 < (3::nat) \<and> chunk ''ab cdefgh i'' 3 = [''ab'', ''cdefgh'', ''i'']
   \<and> (length ''cdefgh'' \<le> 3
        \<or> (''cdefgh'' \<in> set (splitWs ''ab cdefgh i'') \<and> 3 < length ''cdefgh''))
   \<and> ''cdefgh'' \<in> set (chunk ''ab cdefgh i'' 3)"
proof -
  have pos: "0 < (3::nat)" by simp
  have val: "chunk ''ab cdefgh i'' 3 = [''ab'', ''cdefgh'', ''i'']" by code_simp
  from chunk_length_bound [OF pos, of "''ab cdefgh i''"] pos val show ?thesis by simp
qed

subsection \<open>Chunking keeps the words\<close>

lemma splitWs_not_Nil: "splitWs s \<noteq> []"
  by (induction s rule: splitWs.induct) (auto split: list.splits)

lemma splitWs_dropWhile_words:
  "filter (\<lambda>w. w \<noteq> []) (splitWs (dropWhile isWhiteSpace s)) = filter (\<lambda>w. w \<noteq> []) (splitWs s)"
  by (cases s) simp_all

lemma wordsOf_Nil: "wordsOf [] = []"
  by (simp add: wordsOf_def)

lemma wordsOf_space_Cons: "isWhiteSpace c \<Longrightarrow> wordsOf (c # s) = wordsOf s"
  by (simp add: wordsOf_def splitWs_dropWhile_words)

lemma splitWs_append_space:
  assumes "isWhiteSpace c"
  shows "hd (splitWs (a @ c # b)) = hd (splitWs a)
       \<and> filter (\<lambda>w. w \<noteq> []) (tl (splitWs (a @ c # b)))
           = filter (\<lambda>w. w \<noteq> []) (tl (splitWs a)) @ wordsOf b"
proof (induction a)
  case Nil
  show ?case using assms by (simp add: wordsOf_def splitWs_dropWhile_words)
next
  case (Cons x a)
  obtain w ws where sa: "splitWs a = w # ws"
    using splitWs_not_Nil [of a] by (cases "splitWs a") auto
  obtain v vs where sb: "splitWs (a @ c # b) = v # vs"
    using splitWs_not_Nil [of "a @ c # b"] by (cases "splitWs (a @ c # b)") auto
  from Cons sa sb have hd: "v = w"
    and tl: "filter (\<lambda>w. w \<noteq> []) vs = filter (\<lambda>w. w \<noteq> []) ws @ wordsOf b"
    by simp_all
  show ?case
  proof (cases "isWhiteSpace x")
    case True
    have "filter (\<lambda>w. w \<noteq> []) (splitWs (dropWhile isWhiteSpace (a @ c # b)))
            = filter (\<lambda>w. w \<noteq> []) (v # vs)"
      by (simp only: splitWs_dropWhile_words sb)
    moreover have "filter (\<lambda>w. w \<noteq> []) (splitWs (dropWhile isWhiteSpace a))
            = filter (\<lambda>w. w \<noteq> []) (w # ws)"
      by (simp only: splitWs_dropWhile_words sa)
    ultimately show ?thesis using True hd tl by simp
  next
    case False
    then show ?thesis using sa sb hd tl by simp
  qed
qed

lemma wordsOf_append_space:
  assumes "isWhiteSpace c"
  shows "wordsOf (a @ c # b) = wordsOf a @ wordsOf b"
proof -
  obtain w ws where sa: "splitWs a = w # ws"
    using splitWs_not_Nil [of a] by (cases "splitWs a") auto
  obtain v vs where sb: "splitWs (a @ c # b) = v # vs"
    using splitWs_not_Nil [of "a @ c # b"] by (cases "splitWs (a @ c # b)") auto
  from splitWs_append_space [OF assms, of a b] sa sb show ?thesis
    by (simp add: wordsOf_def)
qed

lemma splitWs_no_space: "w \<in> set (splitWs s) \<Longrightarrow> c \<in> set w \<Longrightarrow> \<not> isWhiteSpace c"
proof (induction s arbitrary: w rule: splitWs.induct)
  case 1
  then show ?case by simp
next
  case (2 x xs)
  show ?case
  proof (cases "isWhiteSpace x")
    case True
    with "2.prems" "2.IH"(1) show ?thesis by auto
  next
    case False
    obtain v vs where sx: "splitWs xs = v # vs"
      using splitWs_not_Nil [of xs] by (cases "splitWs xs") auto
    with False "2.prems" have "w = x # v \<or> w \<in> set vs" by simp
    then show ?thesis
    proof
      assume "w = x # v"
      with "2.prems"(2) have "c = x \<or> c \<in> set v" by simp
      then show ?thesis using False "2.IH"(2) [OF False, of v] sx by auto
    next
      assume "w \<in> set vs"
      then show ?thesis using "2.IH"(2) [OF False, of w] sx "2.prems"(2) by simp
    qed
  qed
qed

lemma splitWs_word: "\<forall>c \<in> set w. \<not> isWhiteSpace c \<Longrightarrow> splitWs w = [w]"
  by (induction w) simp_all

lemma wordsOf_word:
  "\<forall>c \<in> set w. \<not> isWhiteSpace c \<Longrightarrow> wordsOf w = (if w = [] then [] else [w])"
  by (simp add: wordsOf_def splitWs_word)

lemma space_isWhiteSpace: "isWhiteSpace CHR '' ''"
  by (simp add: isWhiteSpace_def)

lemma chunkLoop_words:
  assumes "chunkLoop m ws cur acc = (cur', acc')"
    and "\<forall>w \<in> set ws. \<forall>c \<in> set w. \<not> isWhiteSpace c"
  shows "concat (map wordsOf acc') @ wordsOf cur'
           = concat (map wordsOf acc) @ wordsOf cur @ filter (\<lambda>w. w \<noteq> []) ws"
  using assms
proof (induction ws arbitrary: cur acc)
  case Nil
  then show ?case by simp
next
  case (Cons w ws)
  from Cons.prems(2) have ww: "wordsOf w = (if w = [] then [] else [w])"
    and rest: "\<forall>w \<in> set ws. \<forall>c \<in> set w. \<not> isWhiteSpace c"
    by (simp_all add: wordsOf_word)
  show ?case
  proof (cases "length (cur @ '' '' @ w) \<le> m")
    case True
    let ?cur = "cur @ (if cur \<noteq> [] then '' '' else []) @ w"
    from True Cons.prems(1) have run: "chunkLoop m ws ?cur acc = (cur', acc')" by simp
    have "wordsOf ?cur = wordsOf cur @ wordsOf w"
      using wordsOf_append_space [OF space_isWhiteSpace, of cur w]
      by (simp add: wordsOf_Nil)
    with Cons.IH [OF run rest] ww show ?thesis by simp
  next
    case False
    with Cons.prems(1) have run: "chunkLoop m ws w (acc @ [cur]) = (cur', acc')" by simp
    from Cons.IH [OF run rest] ww show ?thesis by simp
  qed
qed

lemma wordsOf_join: "wordsOf (join '' '' cs) = concat (map wordsOf cs)"
proof (induction "'' ''" cs rule: join.induct)
  case 1
  then show ?case by (simp add: wordsOf_Nil)
next
  case (2 x)
  then show ?case by simp
next
  case (3 x y ys)
  then show ?case
    using wordsOf_append_space [OF space_isWhiteSpace, of x "join '' '' (y # ys)"] by simp
qed

text \<open>
  Claim C3. For every text and every bound \<open>maxSize > 0\<close>, the chunks joined by single
  blanks hold exactly the words of the text, whole and in their order.
\<close>

theorem chunk_preserves_words:
  assumes "0 < maxSize"
  shows "wordsOf (join '' '' (chunk text maxSize)) = wordsOf text"
proof (rule chunk_cases [of maxSize "text"])
  fix cur acc
  assume run: "chunkLoop maxSize (splitWs text) [] [] = (cur, acc)"
    and res: "chunk text maxSize = (if cur \<noteq> [] then acc @ [cur] else acc)"
  have clean: "\<forall>w \<in> set (splitWs text). \<forall>c \<in> set w. \<not> isWhiteSpace c"
    using splitWs_no_space by blast
  from chunkLoop_words [OF run clean]
  have "concat (map wordsOf acc) @ wordsOf cur = wordsOf text"
    by (simp add: wordsOf_Nil) (simp add: wordsOf_def)
  moreover have "concat (map wordsOf (chunk text maxSize)) = concat (map wordsOf acc) @ wordsOf cur"
    using res by (simp add: wordsOf_Nil)
  ultimately show ?thesis by (simp add: wordsOf_join)
qed

theorem chunk_preserves_words_witness:
  "0 < (4::nat) \<and> chunk '' abcd  ef g '' 4 = [[], ''abcd'', ''ef g'']
   \<and> wordsOf (join '' '' (chunk '' abcd  ef g '' 4)) = [''abcd'', ''ef'', ''g'']
   \<and> wordsOf '' abcd  ef g '' = [''abcd'', ''ef'', ''g'']"
proof -
  have pos: "0 < (4::nat)" by simp
  have val: "chunk '' abcd  ef g '' 4 = [[], ''abcd'', ''ef g'']" by code_simp
  have ws: "wordsOf '' abcd  ef g '' = [''abcd'', ''ef'', ''g'']" by code_simp
  from chunk_preserves_words [OF pos, of "'' abcd  ef g ''"] pos val ws show ?thesis by simp
qed

section \<open>Properties of retrieval\<close>

lemma insort_key_map:
  "insort_key k (f x) (map f xs) = map f (insort_key (\<lambda>y. k (f y)) x xs)"
  by (induction xs) simp_all

lemma sort_key_map: "sort_key k (map f xs) = map f (sort_key (\<lambda>y. k (f y)) xs)"
  by (induction xs) (simp_all add: insort_key_map)

lemma scoredChunks_Inr:
  assumes "scoredChunks rt terms cs = (n, Inr items)"
  shows "items = map (\<lambda>c. (c, projr (scoreChunk rt terms c))) cs
       \<and> (\<forall>c \<in> set cs. scoreChunk rt terms c = Inr (projr (scoreChunk rt terms c)))
       \<and> n = length cs"
  using assms
proof (induction cs arbitrary: n items)
  case Nil
  then show ?case by simp
next
  case (Cons c cs)
  from Cons.prems obtain k where k: "scoreChunk rt terms c = Inr k"
    by (cases "scoreChunk rt terms c") auto
  obtain m r where rest: "scoredChunks rt terms cs = (m, r)"
    by (cases "scoredChunks rt terms cs") auto
  from Cons.prems k rest obtain its where r: "r = Inr its"
    and items: "items = (c, k) # its" and n: "n = Suc m"
    by (cases r) auto
  from Cons.IH [of m its] rest r k items n show ?case by simp
qed

lemma topChunks_map:
  "topChunks (map (\<lambda>c. (c, sc c)) cs)
     = take 3 (sort_key (\<lambda>c. - int (sc c)) (filter (\<lambda>c. 0 < sc c) cs))"
  by (simp add: topChunks_def filter_map sort_key_map take_map [symmetric] comp_def)

lemma sorted_neg_scores:
  "sorted (map (\<lambda>c. - int (sc c)) xs) \<Longrightarrow> sorted_wrt (\<lambda>a b. b \<le> a) (map sc xs)"
  by (induction xs) auto

lemma ranked_properties:
  fixes sc :: "'a \<Rightarrow> nat"
  defines "out \<equiv> \<lambda>cs. take 3 (sort_key (\<lambda>c. - int (sc c)) (filter (\<lambda>c. 0 < sc c) cs))"
  shows "length (out cs) \<le> 3"
    and "set (out cs) \<subseteq> {c \<in> set cs. 0 < sc c}"
    and "sorted_wrt (\<lambda>a b. b \<le> a) (map sc (out cs))"
    and "prefix (filter (\<lambda>c. sc c = k) (out cs)) (filter (\<lambda>c. sc c = k) cs)"
proof -
  let ?key = "\<lambda>c. - int (sc c)"
  let ?pos = "filter (\<lambda>c. 0 < sc c) cs"
  show "length (out cs) \<le> 3" by (simp add: out_def)
  have "set (out cs) \<subseteq> set (sort_key ?key ?pos)"
    unfolding out_def by (rule set_take_subset)
  then show "set (out cs) \<subseteq> {c \<in> set cs. 0 < sc c}" by auto
  have "sorted (take 3 (map ?key (sort_key ?key ?pos)))"
    by (rule sorted_wrt_take) simp
  then have "sorted (map ?key (take 3 (sort_key ?key ?pos)))"
    by (simp add: take_map)
  then show "sorted_wrt (\<lambda>a b. b \<le> a) (map sc (out cs))"
    unfolding out_def by (rule sorted_neg_scores)
  have stable: "filter (\<lambda>c. sc c = k) (sort_key ?key ?pos) = filter (\<lambda>c. sc c = k) ?pos"
    using sort_key_stable [of ?key "- int k" ?pos] by simp
  have "prefix (filter (\<lambda>c. sc c = k) (out cs)) (filter (\<lambda>c. sc c = k) (sort_key ?key ?pos))"
    unfolding out_def by (rule filter_mono_prefix) (rule take_is_prefix)
  then have pre: "prefix (filter (\<lambda>c. sc c = k) (out cs)) (filter (\<lambda>c. sc c = k) ?pos)"
    by (simp only: stable)
  show "prefix (filter (\<lambda>c. sc c = k) (out cs)) (filter (\<lambda>c. sc c = k) cs)"
  proof (cases "k = 0")
    case True
    have "filter (\<lambda>c. sc c = k) ?pos = []" using True by (auto simp: filter_empty_conv)
    with pre show ?thesis by simp
  next
    case False
    then have "filter (\<lambda>c. sc c = k) ?pos = filter (\<lambda>c. sc c = k) cs"
      by (auto intro: filter_cong)
    with pre show ?thesis by simp
  qed
qed

text \<open>
  The ranking itself, with the score that the code computes: an array that retrieval
  returns has at most 3 chunks; every chunk in it has a score above 0; the scores do not
  increase along it; and for each score, the returned chunks of that score are the first
  chunks of that score in the order of the chunk array.
\<close>

lemma retrieve_ranked:
  assumes "outcome (retrieve rt terms chunks) = Inr out"
  shows "length out \<le> 3
       \<and> (\<exists>scores. map (scoreChunk rt terms) out = map Inr scores
                  \<and> (\<forall>n \<in> set scores. 0 < n)
                  \<and> sorted_wrt (\<lambda>a b. b \<le> a) scores)
       \<and> (\<forall>k. prefix (filter (\<lambda>c. scoreChunk rt terms c = Inr k) out)
                      (filter (\<lambda>c. scoreChunk rt terms c = Inr k) chunks))"
proof (cases "terms = []")
  case True
  with assms have "out = []" by (simp add: retrieve_def)
  then show ?thesis by simp
next
  case False
  let ?sc = "\<lambda>c. projr (scoreChunk rt terms c)"
  obtain n r where sc: "scoredChunks rt terms chunks = (n, r)"
    by (cases "scoredChunks rt terms chunks") auto
  with assms False obtain items where r: "r = Inr items" and out: "out = topChunks items"
    by (cases r) (auto simp: retrieve_def)
  from scoredChunks_Inr [of rt terms chunks n items] sc r
  have items: "items = map (\<lambda>c. (c, ?sc c)) chunks"
    and ok: "\<forall>c \<in> set chunks. scoreChunk rt terms c = Inr (?sc c)"
    by simp_all
  from out items
  have out': "out = take 3 (sort_key (\<lambda>c. - int (?sc c)) (filter (\<lambda>c. 0 < ?sc c) chunks))"
    by (simp only: topChunks_map)
  note props = ranked_properties [where sc = ?sc and cs = chunks, folded out']
  from props(2) have sub: "set out \<subseteq> set chunks" and pos: "\<forall>c \<in> set out. 0 < ?sc c"
    by auto
  have okout: "\<forall>c \<in> set out. scoreChunk rt terms c = Inr (?sc c)"
    using ok sub by blast
  have "map (scoreChunk rt terms) out = map Inr (map ?sc out)"
    using okout by simp
  moreover have "\<forall>n \<in> set (map ?sc out). 0 < n" using pos by simp
  ultimately have second: "\<exists>scores. map (scoreChunk rt terms) out = map Inr scores
      \<and> (\<forall>n \<in> set scores. 0 < n) \<and> sorted_wrt (\<lambda>a b. b \<le> a) scores"
    using props(3) by blast
  have third: "prefix (filter (\<lambda>c. scoreChunk rt terms c = Inr k) out)
                      (filter (\<lambda>c. scoreChunk rt terms c = Inr k) chunks)" for k
  proof -
    have a: "filter (\<lambda>c. scoreChunk rt terms c = Inr k) out = filter (\<lambda>c. ?sc c = k) out"
      by (rule filter_cong [OF refl]) (use okout in auto)
    have b: "filter (\<lambda>c. scoreChunk rt terms c = Inr k) chunks = filter (\<lambda>c. ?sc c = k) chunks"
      by (rule filter_cong [OF refl]) (use ok in auto)
    from props(4) [where k = k] show ?thesis by (simp only: a b)
  qed
  from props(1) second third show ?thesis by blast
qed

lemma retrieve_ranked_example:
  "queryTerms ''Vacation policy?'' = [''vacation'', ''policy'']
   \<and> outcome (retrieve (\<lambda>p. None) [''vacation'', ''policy'']
      [''none here'', ''vacation'', ''vacation policy vacation policy'', ''policy'',
       ''policy vacation x''])
     = Inr [''vacation policy vacation policy'', ''policy vacation x'', ''vacation'']
   \<and> map (scoreChunk (\<lambda>p. None) [''vacation'', ''policy''])
        [''vacation policy vacation policy'', ''policy vacation x'', ''vacation'']
     = [Inr 4, Inr 2, Inr 1]
   \<and> prefix (filter (\<lambda>c. scoreChunk (\<lambda>p. None) [''vacation'', ''policy''] c = Inr 1)
        [''vacation policy vacation policy'', ''policy vacation x'', ''vacation''])
      (filter (\<lambda>c. scoreChunk (\<lambda>p. None) [''vacation'', ''policy''] c = Inr 1)
        [''none here'', ''vacation'', ''vacation policy vacation policy'', ''policy'',
         ''policy vacation x''])"
proof -
  have terms: "queryTerms ''Vacation policy?'' = [''vacation'', ''policy'']" by code_simp
  have run: "outcome (retrieve (\<lambda>p. None) [''vacation'', ''policy'']
      [''none here'', ''vacation'', ''vacation policy vacation policy'', ''policy'',
       ''policy vacation x''])
     = Inr [''vacation policy vacation policy'', ''policy vacation x'', ''vacation'']"
    by code_simp
  have scores: "map (scoreChunk (\<lambda>p. None) [''vacation'', ''policy''])
        [''vacation policy vacation policy'', ''policy vacation x'', ''vacation'']
     = [Inr 4, Inr 2, Inr 1]"
    by code_simp
  from retrieve_ranked [OF run] terms run scores show ?thesis by blast
qed

subsection \<open>Plain terms\<close>

lemma toLowerChar_idem: "toLowerChar (toLowerChar c) = toLowerChar c"
  by (auto simp: toLowerChar_def Let_def)

lemma toLowerChar_canonicalize: "toLowerChar (canonicalize c) = toLowerChar c"
proof -
  have "(of_char c :: nat) < 256" by (rule nat_of_char_less_256)
  then show ?thesis by (auto simp: toLowerChar_def canonicalize_def Let_def)
qed

lemma canonicalize_toLowerChar: "canonicalize (toLowerChar c) = canonicalize c"
proof -
  have "(of_char c :: nat) < 256" by (rule nat_of_char_less_256)
  then show ?thesis by (auto simp: toLowerChar_def canonicalize_def Let_def)
qed

lemma canonicalize_eq_iff:
  "canonicalize a = canonicalize b \<longleftrightarrow> toLowerChar a = toLowerChar b"
proof
  assume "canonicalize a = canonicalize b"
  then have "toLowerChar (canonicalize a) = toLowerChar (canonicalize b)" by simp
  then show "toLowerChar a = toLowerChar b" by (simp only: toLowerChar_canonicalize)
next
  assume "toLowerChar a = toLowerChar b"
  then have "canonicalize (toLowerChar a) = canonicalize (toLowerChar b)" by simp
  then show "canonicalize a = canonicalize b" by (simp only: canonicalize_toLowerChar)
qed

lemma parsePattern_plain:
  "plainTerm t \<Longrightarrow> parsePattern t alt = Fragment [rev alt @ map (\<lambda>c. Atom c Once) t]"
proof (induction t arbitrary: alt)
  case Nil
  then show ?case by simp
next
  case (Cons c t)
  from Cons.prems have c: "c \<notin> set patternChars" and t: "plainTerm t"
    by (simp_all add: plainTerm_def)
  from c have "c \<noteq> CHR ''|''" "c \<noteq> CHR ''^''" "c \<noteq> CHR ''$''" "c \<noteq> CHR ''*''"
    "c \<noteq> CHR ''+''" "c \<notin> set beyondChars"
    by (auto simp: patternChars_def)
  with Cons.IH [OF t, of "Atom c Once # alt"] show ?case by simp
qed

lemma newRegExp_plain:
  "plainTerm t \<Longrightarrow> newRegExp rt t = Inr (Modelled [map (\<lambda>c. Atom c Once) t])"
  by (simp add: newRegExp_def parsePattern_plain)

lemma matchTerms_literal:
  "matchTerms (map (\<lambda>a. Atom a Once) t) pos s
     = (if prefix (map canonicalize t) (map canonicalize s) then Some (pos + length t)
        else None)"
proof (induction t arbitrary: pos s)
  case Nil
  then show ?case by simp
next
  case (Cons a t)
  then show ?case by (cases s) auto
qed

lemma prefix_map_kernel:
  assumes "\<And>a b. f a = f b \<longleftrightarrow> g a = g b"
  shows "prefix (map f t) (map f s) \<longleftrightarrow> prefix (map g t) (map g s)"
proof (induction t arbitrary: s)
  case Nil
  then show ?case by simp
next
  case (Cons a t)
  then show ?case using assms by (cases s) auto
qed

lemma matchAlts_literal:
  "matchAlts [map (\<lambda>a. Atom a Once) t] pos s
     = (if prefix (toLowerCase t) (toLowerCase s) then Some (pos + length t) else None)"
  using prefix_map_kernel [of canonicalize toLowerChar t s, OF canonicalize_eq_iff]
  by (simp add: matchTerms_literal toLowerCase_def)

lemma matchCountFrom_literal:
  "matchCountFrom [map (\<lambda>a. Atom a Once) t] pos s = literalOccurrences t s"
proof (induction t s arbitrary: pos rule: literalOccurrences.induct)
  case (1 t)
  then show ?case by (simp add: matchAlts_literal toLowerCase_def del: matchAlts.simps)
next
  case (2 t c cs)
  show ?case
  proof (cases "prefix (toLowerCase t) (toLowerCase (c # cs))")
    case True
    show ?thesis
    proof (cases "t = []")
      case True
      with "2.IH"(1) [of "Suc pos"] show ?thesis
        by (simp add: toLowerCase_def)
    next
      case False
      then have "\<not> pos + length t \<le> pos" by simp
      moreover have "pos + length t - Suc pos = length t - 1" by simp
      ultimately show ?thesis
        using True "2.IH"(1) [OF True, of "pos + length t"]
        by (simp add: matchAlts_literal del: matchAlts.simps)
    qed
  next
    case False
    with "2.IH"(2) [OF False, of "Suc pos"] show ?thesis
      by (simp add: matchAlts_literal del: matchAlts.simps)
  qed
qed

lemma toLowerCase_idem: "toLowerCase (toLowerCase s) = toLowerCase s"
  by (simp add: toLowerCase_def toLowerChar_idem)

lemma literalOccurrences_lower: "literalOccurrences t (toLowerCase s) = literalOccurrences t s"
proof (induction t s rule: literalOccurrences.induct)
  case (1 t)
  then show ?case by (simp add: toLowerCase_def)
next
  case (2 t c cs)
  have cons: "toLowerCase (c # cs) = toLowerChar c # toLowerCase cs"
    by (simp add: toLowerCase_def)
  have idem: "toLowerCase (toLowerChar c # toLowerCase cs) = toLowerCase (c # cs)"
    using toLowerCase_idem [of "c # cs"] by (simp add: cons)
  have dr: "drop n (toLowerCase cs) = toLowerCase (drop n cs)" for n
    by (simp add: toLowerCase_def drop_map)
  show ?case
  proof (cases "prefix (toLowerCase t) (toLowerCase (c # cs))")
    case True
    with "2.IH"(1) [OF True] show ?thesis
      by (simp only: cons literalOccurrences.simps idem dr) (simp add: cons)
  next
    case False
    with "2.IH"(2) [OF False] show ?thesis
      by (simp only: cons literalOccurrences.simps idem dr) (simp add: cons)
  qed
qed

lemma scoreLoop_plain:
  "list_all plainTerm terms \<Longrightarrow>
   scoreLoop rt terms s n = Inr (n + sum_list (map (\<lambda>t. literalOccurrences t s) terms))"
proof (induction terms arbitrary: n)
  case Nil
  then show ?case by simp
next
  case (Cons t terms)
  then show ?case
    by (simp add: newRegExp_plain matchCount_def matchCountFrom_literal)
qed

text \<open>
  On plain terms the score of the code is the literal score: the regular expression of a
  plain term matches exactly the occurrences of the term.
\<close>

lemma plain_terms_score:
  "list_all plainTerm terms \<Longrightarrow> scoreChunk rt terms c = Inr (literalScore terms c)"
  by (simp add: scoreChunk_def scoreLoop_plain literalScore_def literalOccurrences_lower)

lemma scoredChunks_plain:
  "list_all plainTerm terms \<Longrightarrow>
   scoredChunks rt terms cs = (length cs, Inr (map (\<lambda>c. (c, literalScore terms c)) cs))"
  by (induction cs) (simp_all add: plain_terms_score)

lemma retrieve_plain_terms:
  assumes "list_all plainTerm terms"
  shows "\<exists>out. outcome (retrieve rt terms chunks) = Inr out"
  using assms by (simp add: retrieve_def scoredChunks_plain)

text \<open>
  So for plain terms retrieval returns, and ranks by the literal score.
\<close>

lemma retrieve_ranked_plain:
  assumes "list_all plainTerm terms"
  shows "\<exists>out. outcome (retrieve rt terms chunks) = Inr out
           \<and> length out \<le> 3
           \<and> (\<forall>c \<in> set out. 0 < literalScore terms c)
           \<and> sorted_wrt (\<lambda>a b. b \<le> a) (map (literalScore terms) out)
           \<and> (\<forall>k. prefix (filter (\<lambda>c. literalScore terms c = k) out)
                          (filter (\<lambda>c. literalScore terms c = k) chunks))"
proof -
  from retrieve_plain_terms [OF assms, where rt = rt and chunks = chunks]
  obtain out where out: "outcome (retrieve rt terms chunks) = Inr out" ..
  have sc: "scoreChunk rt terms = (\<lambda>c. Inr (literalScore terms c))"
    by (rule ext) (rule plain_terms_score [OF assms])
  from retrieve_ranked [OF out, unfolded sc]
  obtain scores where len: "length out \<le> 3"
    and scores: "map (\<lambda>c. Inr (literalScore terms c) :: error + nat) out = map Inr scores"
    and pos: "\<forall>n \<in> set scores. 0 < n" and sorted: "sorted_wrt (\<lambda>a b. b \<le> a) scores"
    and pre: "\<forall>k. prefix (filter (\<lambda>c. literalScore terms c = k) out)
                        (filter (\<lambda>c. literalScore terms c = k) chunks)"
    by auto
  from scores have "map Inr (map (literalScore terms) out) = (map Inr scores :: (error + nat) list)"
    by (simp only: map_map comp_def)
  then have eq: "map (literalScore terms) out = scores"
    by (rule map_injective) simp
  from eq pos have "\<forall>c \<in> set out. 0 < literalScore terms c" by auto
  with out len eq sorted pre show ?thesis by blast
qed

subsection \<open>Terms with pattern characters\<close>

text \<open>
  Claim C1. The score of a chunk should be the number of literal, case-insensitive
  occurrences of the terms in it. The code compiles each term as a regular expression
  instead: the term \<^verbatim>\<open>pay|leave\<close> scores 2 on a chunk in which it does not occur, and the
  term \<^verbatim>\<open>c++17\<close> makes scoring throw on a chunk in which it occurs once, so that a chat
  request with the message \<^verbatim>\<open>is c++17 allowed?\<close> gets no reply.
\<close>

theorem score_reads_terms_as_patterns:
  "scoreChunk rt [''pay|leave''] ''pay and leave'' = Inr 2
   \<and> literalScore [''pay|leave''] ''pay and leave'' = 0
   \<and> scoreChunk rt [''c++17''] ''we use c++17 here'' = Inl SyntaxError
   \<and> literalScore [''c++17''] ''we use c++17 here'' = 1
   \<and> queryTerms ''is c++17 allowed?'' = [''c++17'', ''allowed'']
   \<and> fst (chat rt (\<lambda>messages. Some ''yes'') (Extracted ''we use c++17 here'') initialState
          \<lparr>message = ''is c++17 allowed?'', useRAG = Undefined, sessionId = None\<rparr>)
       = Unanswered SyntaxError"
  by code_simp

text \<open>
  Claim C5. Retrieval should return at most 3 chunks, none of score 0, by scores that do
  not increase, the score being the number of literal occurrences of the terms. Since the
  code compiles the terms as patterns, for the term \<^verbatim>\<open>pay|leave\<close> it returns first a chunk
  whose score is 0, ahead of a chunk whose score is 1; and for the term \<^verbatim>\<open>c++17\<close> it
  returns nothing, as scoring throws.
\<close>

theorem retrieve_ranks_by_pattern_score:
  "queryTerms ''pay|leave'' = [''pay|leave'']
   \<and> outcome (retrieve rt [''pay|leave'']
        [''pay and leave and pay'', ''we discuss pay|leave here''])
       = Inr [''pay and leave and pay'', ''we discuss pay|leave here'']
   \<and> literalScore [''pay|leave''] ''pay and leave and pay'' = 0
   \<and> literalScore [''pay|leave''] ''we discuss pay|leave here'' = 1
   \<and> outcome (retrieve rt [''c++17''] [''we use c++17 here'']) = Inl SyntaxError"
  by code_simp

subsection \<open>Query terms\<close>

lemma splitWs_chars: "w \<in> set (splitWs s) \<Longrightarrow> c \<in> set w \<Longrightarrow> c \<in> set s"
proof (induction s arbitrary: w rule: splitWs.induct)
  case 1
  then show ?case by simp
next
  case (2 x xs)
  show ?case
  proof (cases "isWhiteSpace x")
    case True
    with "2.prems" have "w \<in> set (splitWs (dropWhile isWhiteSpace xs))" by auto
    from "2.IH"(1) [OF True this "2.prems"(2)] have "c \<in> set (dropWhile isWhiteSpace xs)" .
    then have "c \<in> set xs" by (rule set_dropWhileD)
    then show ?thesis by simp
  next
    case False
    obtain v vs where sx: "splitWs xs = v # vs"
      using splitWs_not_Nil [of xs] by (cases "splitWs xs") auto
    with False "2.prems" have "w = x # v \<or> w \<in> set vs" by simp
    then show ?thesis
    proof
      assume "w = x # v"
      with "2.prems"(2) have "c = x \<or> c \<in> set v" by simp
      then show ?thesis using "2.IH"(2) [OF False, of v] sx by auto
    next
      assume "w \<in> set vs"
      then show ?thesis using "2.IH"(2) [OF False, of w] sx "2.prems"(2) by simp
    qed
  qed
qed

text \<open>
  What the term list of the code holds: the query is lower-cased and split on white space,
  the length filter runs, and the punctuation is stripped from the tokens that pass. So the
  terms are, one for one and in order, what the stripping leaves of the lower-cased tokens
  of length above 3, and a term holds no punctuation, no white space and no upper-case
  letter.
\<close>

lemma queryTerms_shape:
  "list_all2 (\<lambda>t tok. t = stripPunctuation tok) (queryTerms query)
       (filter (\<lambda>tok. 3 < length tok) (splitWs (toLowerCase query)))
   \<and> (\<forall>t \<in> set (queryTerms query).
         \<forall>c \<in> set t. c \<notin> set punctuation \<and> \<not> isWhiteSpace c \<and> toLowerChar c = c)"
proof
  show "list_all2 (\<lambda>t tok. t = stripPunctuation tok) (queryTerms query)
       (filter (\<lambda>tok. 3 < length tok) (splitWs (toLowerCase query)))"
    by (simp add: queryTerms_def list_all2_map1 list_all2_same)
  show "\<forall>t \<in> set (queryTerms query).
         \<forall>c \<in> set t. c \<notin> set punctuation \<and> \<not> isWhiteSpace c \<and> toLowerChar c = c"
  proof (intro ballI)
    fix t c
    assume "t \<in> set (queryTerms query)" and c: "c \<in> set t"
    then obtain tok where tok: "tok \<in> set (splitWs (toLowerCase query))"
      and t: "t = stripPunctuation tok"
      by (auto simp: queryTerms_def)
    from c t have notp: "c \<notin> set punctuation" and ctok: "c \<in> set tok"
      by (simp_all add: stripPunctuation_def)
    from splitWs_no_space [OF tok ctok] have nows: "\<not> isWhiteSpace c" .
    from splitWs_chars [OF tok ctok] obtain d where "c = toLowerChar d"
      by (auto simp: toLowerCase_def)
    then have "toLowerChar c = c" by (simp add: toLowerChar_idem)
    with notp nows show "c \<notin> set punctuation \<and> \<not> isWhiteSpace c \<and> toLowerChar c = c"
      by simp
  qed
qed

lemma queryTerms_shape_example:
  "queryTerms ''Why? (a). Hello, World!'' = [''why'', ''a'', ''hello'', ''world'']
   \<and> filter (\<lambda>tok. 3 < length tok) (splitWs (toLowerCase ''Why? (a). Hello, World!''))
       = [''why?'', ''(a).'', ''hello,'', ''world!'']
   \<and> list_all2 (\<lambda>t tok. t = stripPunctuation tok) [''why'', ''a'', ''hello'', ''world'']
       [''why?'', ''(a).'', ''hello,'', ''world!'']
   \<and> CHR ''w'' \<notin> set punctuation \<and> \<not> isWhiteSpace CHR ''w''
   \<and> toLowerChar CHR ''w'' = CHR ''w''"
proof -
  have val: "queryTerms ''Why? (a). Hello, World!'' = [''why'', ''a'', ''hello'', ''world'']"
    by code_simp
  have toks: "filter (\<lambda>tok. 3 < length tok) (splitWs (toLowerCase ''Why? (a). Hello, World!''))
       = [''why?'', ''(a).'', ''hello,'', ''world!'']"
    by code_simp
  note shape = queryTerms_shape [of "''Why? (a). Hello, World!''"]
  from shape [THEN conjunct1]
  have pairs: "list_all2 (\<lambda>t tok. t = stripPunctuation tok)
       [''why'', ''a'', ''hello'', ''world''] [''why?'', ''(a).'', ''hello,'', ''world!'']"
    by (simp only: val toks)
  from shape [THEN conjunct2]
  have "\<forall>t \<in> set [''why'', ''a'', ''hello'', ''world''].
         \<forall>c \<in> set t. c \<notin> set punctuation \<and> \<not> isWhiteSpace c \<and> toLowerChar c = c"
    by (simp only: val)
  then have "CHR ''w'' \<notin> set punctuation \<and> \<not> isWhiteSpace CHR ''w''
      \<and> toLowerChar CHR ''w'' = CHR ''w''"
    by simp
  with val toks pairs show ?thesis by blast
qed

text \<open>
  Claim C2. Every term of the normalised query should have more than 3 characters once the
  punctuation is stripped. The code measures the length before it strips: the token
  \<^verbatim>\<open>why?\<close> passes with 4 characters and leaves the term \<^verbatim>\<open>why\<close> of 3, although the same
  word without the question mark is discarded; and the token \<^verbatim>\<open>....\<close> leaves the empty
  term. Normalised as the specification words it, both queries have no term.
\<close>

theorem queryTerms_keeps_short_terms:
  "queryTerms ''why?'' = [''why''] \<and> normalize ''why?'' = []
   \<and> queryTerms ''why'' = []
   \<and> queryTerms ''....'' = [[]] \<and> normalize ''....'' = []"
  by code_simp

text \<open>
  The guard of the code: for a query all of whose tokens, as split and before any
  punctuation is stripped, have length 3 or less, and for a query whose term list is empty,
  retrieval returns the empty array and scores no chunk.
\<close>

lemma retrieve_short_circuit:
  assumes "(\<forall>tok \<in> set (splitWs (toLowerCase query)). length tok \<le> 3)
           \<or> queryTerms query = []"
  shows "retrieveRelevantContent rt query chunks = \<lparr>scored = 0, outcome = Inr []\<rparr>"
proof -
  from assms have "queryTerms query = []"
    by (auto simp: queryTerms_def filter_empty_conv)
  then show ?thesis by (simp add: retrieveRelevantContent_def retrieve_def)
qed

lemma retrieve_short_circuit_example:
  "splitWs (toLowerCase ''Is it ok?'') = [''is'', ''it'', ''ok?'']
   \<and> retrieveRelevantContent (\<lambda>p. None) ''Is it ok?'' [''is it ok? it is'', ''ok'']
       = \<lparr>scored = 0, outcome = Inr []\<rparr>
   \<and> retrieveRelevantContent (\<lambda>p. None) ''is it okay'' [''is it ok? it is'', ''okay'']
       = \<lparr>scored = 2, outcome = Inr [''okay'']\<rparr>"
proof -
  have tokens: "splitWs (toLowerCase ''Is it ok?'') = [''is'', ''it'', ''ok?'']"
    by code_simp
  then have short: "(\<forall>tok \<in> set (splitWs (toLowerCase ''Is it ok?'')). length tok \<le> 3)
      \<or> queryTerms ''Is it ok?'' = []"
    by simp
  have other: "retrieveRelevantContent (\<lambda>p. None) ''is it okay'' [''is it ok? it is'', ''okay'']
       = \<lparr>scored = 2, outcome = Inr [''okay'']\<rparr>"
    by code_simp
  from retrieve_short_circuit [OF short, where rt = "\<lambda>p. None"
      and chunks = "[''is it ok? it is'', ''ok'']"] tokens other
  show ?thesis by simp
qed

text \<open>
  Claim C6. A query whose terms all have 3 characters or less, and a query that normalises
  to no term, should retrieve nothing and score no chunk. The only term of \<^verbatim>\<open>why?\<close> is
  \<^verbatim>\<open>why\<close>, and \<^verbatim>\<open>....\<close> has none once its punctuation is stripped; yet for both the code
  scores every chunk and returns chunks, the empty term of \<^verbatim>\<open>....\<close> matching at every
  index of every chunk.
\<close>

theorem retrieve_scores_short_terms:
  "normalizedTokens ''why?'' = [''why''] \<and> length ''why'' \<le> 3 \<and> normalize ''why?'' = []
   \<and> retrieveRelevantContent rt ''why?'' [''why not'']
       = \<lparr>scored = 1, outcome = Inr [''why not'']\<rparr>
   \<and> normalize ''....'' = []
   \<and> retrieveRelevantContent rt ''....'' [''ab'', ''abcd'']
       = \<lparr>scored = 2, outcome = Inr [''abcd'', ''ab'']\<rparr>"
  by code_simp

section \<open>Properties of the chat handler\<close>

lemma getSessionMemory_history:
  assumes "getSessionMemory k m = (h, m')"
  shows "(case m' sid of None \<Rightarrow> [] | Some x \<Rightarrow> x) = (case m sid of None \<Rightarrow> [] | Some x \<Rightarrow> x)"
    and "h = Some hist \<Longrightarrow> hist = (case m k of None \<Rightarrow> [] | Some x \<Rightarrow> x)"
  using assms by (auto simp: getSessionMemory_def split: option.splits if_splits)

lemma loadPDF_sessions: "loadPDF file s = Inr (t, s') \<Longrightarrow> sessionMemories s' = sessionMemories s"
  by (auto simp: loadPDF_def split: option.splits list.splits corpus.splits)

lemma loadPDF_Missing: "\<exists>t. loadPDF Missing s = Inr (t, s)"
  by (simp add: loadPDF_def split: option.splits list.splits)

lemma buildMessages_sessions:
  assumes "buildMessages rt file s req = (r, s')"
  shows "sessionMemories s' = snd (getSessionMemory (sessionKey req) (sessionMemories s))"
  using assms
  by (auto simp: buildMessages_def Let_def dest: loadPDF_sessions
           split: prod.splits option.splits sum.splits if_splits)

lemma buildMessages_history:
  assumes "buildMessages rt file s req = (r, s')"
  shows "getHistory s' sid = getHistory s sid"
proof -
  obtain h m' where g: "getSessionMemory (sessionKey req) (sessionMemories s) = (h, m')"
    by (cases "getSessionMemory (sessionKey req) (sessionMemories s)") auto
  from buildMessages_sessions [OF assms] g have "sessionMemories s' = m'" by simp
  with getSessionMemory_history(1) [OF g, of sid] show ?thesis
    by (simp add: getHistory_def)
qed

text \<open>
  Claim C8. When a chat request does not end in a reply (the model call failed, or the
  handler threw before it), the history of every session is what it was before the request:
  the exchange is saved only after the model has answered.
\<close>

theorem failed_call_keeps_history:
  assumes "chat rt invoke file s req = (response, s')"
    and "\<forall>content sources. response \<noteq> Reply content sources"
  shows "getHistory s' sid = getHistory s sid"
proof -
  obtain r s1 where b: "buildMessages rt file s req = (r, s1)"
    by (cases "buildMessages rt file s req") auto
  from assms b have "s' = s1"
    by (auto simp: chat_def split: sum.splits prod.splits option.splits)
  with buildMessages_history [OF b] show ?thesis by simp
qed

theorem failed_call_keeps_history_witness:
  "chat (\<lambda>p. None) (\<lambda>messages. None) Missing
      (initialState\<lparr>sessionMemories := [''s1'' \<mapsto> [(User, ''hello''), (Assistant, ''hi there'')]]\<rparr>)
      \<lparr>message = ''vacation policy'', useRAG = Boolean True, sessionId = Some ''s1''\<rparr>
     = (ModelCallFailed,
        initialState\<lparr>sessionMemories := [''s1'' \<mapsto> [(User, ''hello''), (Assistant, ''hi there'')]]\<rparr>)
   \<and> getHistory (initialState\<lparr>sessionMemories := [''s1'' \<mapsto> [(User, ''hello''), (Assistant, ''hi there'')]]\<rparr>) ''s1''
       = [(User, ''hello''), (Assistant, ''hi there'')]"
proof -
  let ?s = "initialState\<lparr>sessionMemories := [''s1'' \<mapsto> [(User, ''hello''), (Assistant, ''hi there'')]]\<rparr>"
  let ?req = "\<lparr>message = ''vacation policy'', useRAG = Boolean True, sessionId = Some ''s1''\<rparr>"
  have run: "chat (\<lambda>p. None) (\<lambda>messages. None) Missing ?s ?req = (ModelCallFailed, ?s)"
    by (simp add: chat_def buildMessages_def sessionKey_def getSessionMemory_def ragFlag_def
        loadPDF_def initialState_def retrieveRelevantContent_def retrieve_def Let_def
        split: prod.splits)
  have "\<forall>content sources. ModelCallFailed \<noteq> Reply content sources" by simp
  from failed_call_keeps_history [OF run this, of "''s1''"] run show ?thesis
    by (simp add: getHistory_def initialState_def)
qed

text \<open>
  Whenever the handler gets to the model call, the message list it hands over is the system
  message, then the session's prior history, then the user's message; the sources are the
  retrieved chunks when the flag is on, and empty when it is off.
\<close>

lemma buildMessages_shape:
  assumes "buildMessages rt file s req = (Inr (messages, sources), s')"
  shows "messages = systemMessage (ragFlag req) sources
                      # getHistory s (sessionKey req) @ [(User, message req)]
       \<and> (ragFlag req \<longrightarrow>
             outcome (retrieveRelevantContent rt (message req) (pdfChunks s')) = Inr sources)
       \<and> (\<not> ragFlag req \<longrightarrow> sources = [])"
proof -
  obtain h m' where g: "getSessionMemory (sessionKey req) (sessionMemories s) = (h, m')"
    by (cases "getSessionMemory (sessionKey req) (sessionMemories s)") auto
  from assms g obtain hist where h: "h = Some hist"
    by (cases h) (auto simp: buildMessages_def)
  from getSessionMemory_history(2) [OF g h] have hist: "hist = getHistory s (sessionKey req)"
    by (simp add: getHistory_def)
  show ?thesis
  proof (cases "ragFlag req")
    case False
    with assms g h hist show ?thesis by (auto simp: buildMessages_def Let_def)
  next
    case True
    with assms g h hist show ?thesis
      by (auto simp: buildMessages_def Let_def split: sum.splits prod.splits)
  qed
qed




text \<open>
  Claim C7. With no file at the corpus path and no chunks loaded, a request with the flag
  on does not fail in retrieval: no chunk is retrieved, the sources are empty, the system
  message is the one that says no relevant information was found, and a reply of the model
  is sent with the empty sources.
\<close>

theorem missing_corpus_degrades:
  assumes "pdfChunks s = []" and "ragFlag req" and "sessionKey req \<notin> set inheritedKeys"
  shows "\<exists>s'. buildMessages rt Missing s req
            = (Inr ((System, noInformationPrompt) # getHistory s (sessionKey req)
                      @ [(User, message req)], []), s')
          \<and> pdfChunks s' = []
          \<and> outcome (retrieveRelevantContent rt (message req) (pdfChunks s')) = Inr []
          \<and> (\<forall>content. invoke ((System, noInformationPrompt) # getHistory s (sessionKey req)
                      @ [(User, message req)]) = Some content
                \<longrightarrow> fst (chat rt invoke Missing s req) = Reply content [])"
proof -
  obtain h m' where g: "getSessionMemory (sessionKey req) (sessionMemories s) = (h, m')"
    by (cases "getSessionMemory (sessionKey req) (sessionMemories s)") auto
  have "\<exists>hist. h = Some hist"
  proof (cases "sessionMemories s (sessionKey req)")
    case None
    with assms(3)
    have "getSessionMemory (sessionKey req) (sessionMemories s)
            = (Some [], (sessionMemories s)(sessionKey req \<mapsto> []))"
      by (simp add: getSessionMemory_def)
    with g have "h = Some []" by simp
    then show ?thesis by blast
  next
    case (Some a)
    then have "getSessionMemory (sessionKey req) (sessionMemories s) = (Some a, sessionMemories s)"
      by (simp add: getSessionMemory_def)
    with g have "h = Some a" by simp
    then show ?thesis by blast
  qed
  then obtain hist where h: "h = Some hist" ..
  from getSessionMemory_history(2) [OF g h] have hist: "hist = getHistory s (sessionKey req)"
    by (simp add: getHistory_def)
  let ?s1 = "s\<lparr>sessionMemories := m'\<rparr>"
  from loadPDF_Missing [of ?s1] obtain t where load: "loadPDF Missing ?s1 = Inr (t, ?s1)" ..
  have empty: "outcome (retrieveRelevantContent rt q []) = Inr []" for q
    by (simp add: retrieveRelevantContent_def retrieve_def topChunks_def)
  have build: "buildMessages rt Missing s req
      = (Inr ((System, noInformationPrompt) # getHistory s (sessionKey req)
                @ [(User, message req)], []), ?s1)"
    using g h hist load assms(1,2) empty
    by (simp add: buildMessages_def Let_def systemMessage_def)
  then show ?thesis using assms(1) empty by (auto simp: chat_def)
qed

theorem missing_corpus_degrades_witness:
  "pdfChunks initialState = []
   \<and> ragFlag \<lparr>message = ''vacation policy'', useRAG = Undefined, sessionId = None\<rparr>
   \<and> ''default'' \<notin> set inheritedKeys
   \<and> fst (buildMessages (\<lambda>p. None) Missing initialState
            \<lparr>message = ''vacation policy'', useRAG = Undefined, sessionId = None\<rparr>)
       = Inr ([(System, noInformationPrompt), (User, ''vacation policy'')], [])
   \<and> fst (chat (\<lambda>p. None) (\<lambda>messages. Some ''sorry'') Missing initialState
            \<lparr>message = ''vacation policy'', useRAG = Undefined, sessionId = None\<rparr>)
       = Reply ''sorry'' []"
proof -
  let ?req = "\<lparr>message = ''vacation policy'', useRAG = Undefined, sessionId = None\<rparr>"
  have a: "pdfChunks initialState = []" by (simp add: initialState_def)
  have b: "ragFlag ?req" by (simp add: ragFlag_def)
  have key: "sessionKey ?req = ''default''" by (simp add: sessionKey_def)
  have c: "sessionKey ?req \<notin> set inheritedKeys" by (simp add: key inheritedKeys_def)
  have hist: "getHistory initialState ''default'' = []"
    by (simp add: getHistory_def initialState_def)
  from missing_corpus_degrades [OF a b c, where rt = "\<lambda>p. None"
      and invoke = "\<lambda>messages. Some ''sorry''"] a b c key hist
  show ?thesis by auto
qed

lemma buildMessages_shape_example:
  "fst (buildMessages (\<lambda>p. None) (Extracted ''the vacation policy is good'')
          (initialState\<lparr>sessionMemories := [''s1'' \<mapsto> [(User, ''hello''), (Assistant, ''hi there'')]]\<rparr>)
          \<lparr>message = ''vacation policy'', useRAG = Boolean True, sessionId = Some ''s1''\<rparr>)
     = Inr ([(System, groundedPrompt [''the vacation policy is good'']), (User, ''hello''),
             (Assistant, ''hi there''), (User, ''vacation policy'')],
            [''the vacation policy is good''])
   \<and> outcome (retrieveRelevantContent (\<lambda>p. None) ''vacation policy''
        (pdfChunks (snd (buildMessages (\<lambda>p. None) (Extracted ''the vacation policy is good'')
          (initialState\<lparr>sessionMemories := [''s1'' \<mapsto> [(User, ''hello''), (Assistant, ''hi there'')]]\<rparr>)
          \<lparr>message = ''vacation policy'', useRAG = Boolean True, sessionId = Some ''s1''\<rparr>))))
     = Inr [''the vacation policy is good'']"
proof -
  let ?s = "initialState\<lparr>sessionMemories := [''s1'' \<mapsto> [(User, ''hello''), (Assistant, ''hi there'')]]\<rparr>"
  let ?req = "\<lparr>message = ''vacation policy'', useRAG = Boolean True, sessionId = Some ''s1''\<rparr>"
  let ?file = "Extracted ''the vacation policy is good''"
  have run: "fst (buildMessages (\<lambda>p. None) ?file ?s ?req)
     = Inr ([(System, groundedPrompt [''the vacation policy is good'']), (User, ''hello''),
             (Assistant, ''hi there''), (User, ''vacation policy'')],
            [''the vacation policy is good''])"
    by code_simp
  then have full: "buildMessages (\<lambda>p. None) ?file ?s ?req
     = (Inr ([(System, groundedPrompt [''the vacation policy is good'']), (User, ''hello''),
             (Assistant, ''hi there''), (User, ''vacation policy'')],
            [''the vacation policy is good'']), snd (buildMessages (\<lambda>p. None) ?file ?s ?req))"
    by (simp add: prod_eq_iff)
  have flag: "ragFlag ?req" by (simp add: ragFlag_def)
  from buildMessages_shape [OF full] run flag show ?thesis by simp
qed


lemma loadPDF_readable:
  "file \<noteq> Unreadable \<Longrightarrow> \<exists>t s'. loadPDF file s = Inr (t, s')"
  by (cases "file") (simp_all add: loadPDF_def split: option.splits list.splits)

text \<open>
  The handler gets to the model call whenever the session key is not an inherited one, the
  corpus file can be read, and the terms of the message are plain.
\<close>

lemma buildMessages_returns:
  assumes "sessionKey req \<notin> set inheritedKeys" and "file \<noteq> Unreadable"
    and "list_all plainTerm (queryTerms (message req))"
  shows "\<exists>messages sources s'. buildMessages rt file s req = (Inr (messages, sources), s')"
proof -
  obtain h m' where g: "getSessionMemory (sessionKey req) (sessionMemories s) = (h, m')"
    by (cases "getSessionMemory (sessionKey req) (sessionMemories s)") auto
  have "\<exists>hist. h = Some hist"
  proof (cases "sessionMemories s (sessionKey req)")
    case None
    with assms(1)
    have "getSessionMemory (sessionKey req) (sessionMemories s)
            = (Some [], (sessionMemories s)(sessionKey req \<mapsto> []))"
      by (simp add: getSessionMemory_def)
    with g have "h = Some []" by simp
    then show ?thesis by blast
  next
    case (Some a)
    then have "getSessionMemory (sessionKey req) (sessionMemories s) = (Some a, sessionMemories s)"
      by (simp add: getSessionMemory_def)
    with g have "h = Some a" by simp
    then show ?thesis by blast
  qed
  then obtain hist where h: "h = Some hist" ..
  let ?s1 = "s\<lparr>sessionMemories := m'\<rparr>"
  from loadPDF_readable [OF assms(2), of ?s1]
  obtain t s2 where load: "loadPDF file ?s1 = Inr (t, s2)" by blast
  from retrieve_plain_terms [OF assms(3), where rt = rt and chunks = "pdfChunks s2"]
  obtain out where out: "outcome (retrieveRelevantContent rt (message req) (pdfChunks s2)) = Inr out"
    unfolding retrieveRelevantContent_def ..
  show ?thesis using g h load out by (simp add: buildMessages_def Let_def)
qed

text \<open>
  While the corpus file is missing, no request ever adds a chunk.
\<close>

lemma chat_missing_no_chunks:
  assumes "pdfChunks s = []"
  shows "pdfChunks (snd (chat rt invoke Missing s req)) = []"
proof -
  have load: "loadPDF Missing s1 = Inr (t, s2) \<Longrightarrow> pdfChunks s2 = pdfChunks s1" for s1 t s2
    by (auto simp: loadPDF_def split: option.splits list.splits)
  have "pdfChunks (snd (buildMessages rt Missing s req)) = []"
    using assms
    by (auto simp: buildMessages_def Let_def dest!: load
             split: prod.splits option.splits sum.splits)
  then show ?thesis
    by (auto simp: chat_def split: prod.splits option.splits sum.splits)
qed

lemma served_missing_no_chunks:
  "pdfChunks s = [] \<Longrightarrow>
   pdfChunks (foldl (\<lambda>s req. snd (chat rt invoke Missing s req)) s reqs) = []"
  by (induction reqs arbitrary: s) (simp_all add: chat_missing_no_chunks)

text \<open>
  Claim C9. For every session id, message and flag the handler should build the message
  list. It builds none, and the request gets no reply, for a session id that names a
  property every object inherits, such as \<^verbatim>\<open>constructor\<close>: the lookup finds the inherited
  value, which is no memory, and \<^verbatim>\<open>loadMemoryVariables\<close> is not a function of it. Nor does
  it build one when the corpus file cannot be read, or when a term of the message is not a
  valid pattern.
\<close>

theorem buildMessages_throws:
  "fst (buildMessages rt Missing initialState
          \<lparr>message = ''hello there'', useRAG = Boolean False, sessionId = Some ''constructor''\<rparr>)
     = Inl TypeError
   \<and> fst (chat rt (\<lambda>messages. Some ''hi'') Missing initialState
          \<lparr>message = ''hello there'', useRAG = Boolean False, sessionId = Some ''constructor''\<rparr>)
     = Unanswered TypeError
   \<and> fst (buildMessages rt Unreadable initialState
          \<lparr>message = ''hello there'', useRAG = Undefined, sessionId = None\<rparr>)
     = Inl CorpusError
   \<and> fst (buildMessages rt (Extracted ''we use c++17 here'') initialState
          \<lparr>message = ''is c++17 allowed?'', useRAG = Undefined, sessionId = None\<rparr>)
     = Inl SyntaxError"
  by code_simp

end
